theory Spec2Isabelle
  imports Complex_Main "HOL-Library.Word" "HOL-Library.AList" "HOL-Library.Multiset"
begin

section \<open>The session and message routing engine of backend/server.js\<close>

text \<open>
  The theory embeds the in-memory store of \<^verbatim>\<open>server.js\<close> (the \<^verbatim>\<open>sessions\<close> Map and the
  counter \<^verbatim>\<open>globalIndex\<close>), the helpers \<^verbatim>\<open>createSession\<close>, \<^verbatim>\<open>pushMessage\<close>,
  \<^verbatim>\<open>isAwaitingOperator\<close> and \<^verbatim>\<open>askGemini\<close>, and the route handlers that read or write
  the store. Every handler is a function from the store to a response and the next store.
  The second copy of the server in the repository differs in the handlers modelled here
  only by logging, by an extra constant \<^verbatim>\<open>systemPrompt\<close> handed to the responder, and by
  the extra field \<^verbatim>\<open>replyIndex\<close> of the chat response.
\<close>

subsection \<open>JavaScript values\<close>

text \<open>
  A JavaScript string is a sequence of UTF-16 code units; \<^verbatim>\<open>length\<close> and \<^verbatim>\<open>slice\<close> count
  code units.
\<close>

type_synonym code_unit = "16 word"
type_synonym jsstring = "code_unit list"

text \<open>The code units of an ASCII literal of the source.\<close>

definition utf16 :: "string \<Rightarrow> jsstring" where
  "utf16 cs = map (\<lambda>c. of_nat (of_char c)) cs"

text \<open>
  A value taken from a request (a field of the JSON body, a query parameter). The handlers
  observe such a value in three ways only: its truthiness (\<^verbatim>\<open>!v\<close>), its conversion
  \<^verbatim>\<open>String(v)\<close> (also the conversion of a template literal), and its use as a key of the
  \<^verbatim>\<open>sessions\<close> Map. A string is kept as it is. Any other value (undefined, null, a
  boolean, a number, an array, an object) is kept as its truthiness and the result of its
  string conversion, which is \<open>None\<close> when the conversion throws (an object whose own
  \<^verbatim>\<open>toString\<close> is not callable).
\<close>

datatype jsval = JStr jsstring | JOther bool "jsstring option"

definition JUndefined :: jsval where
  "JUndefined = JOther False (Some (utf16 ''undefined''))"

fun truthy :: "jsval \<Rightarrow> bool" where
  "truthy (JStr s) = (s \<noteq> [])"
| "truthy (JOther b r) = b"

fun String_js :: "jsval \<Rightarrow> jsstring option" where
  "String_js (JStr s) = Some s"
| "String_js (JOther b r) = r"

text \<open>\<^verbatim>\<open>s.slice(0, n)\<close> on a string, for a literal \<open>n \<ge> 0\<close>.\<close>

definition slice0 :: "nat \<Rightarrow> jsstring \<Rightarrow> jsstring" where
  "slice0 n s = take n s"

text \<open>
  A JavaScript number as the poll cursor carries it: \<^verbatim>\<open>Number(req.query.after || 0)\<close> may be
  NaN, an infinity or any finite double, and every finite double is a rational.
\<close>

datatype jsnum = NaN | NegInf | PosInf | Fin rat

text \<open>\<^verbatim>\<open>m.i > a\<close> for a sequence number \<open>m.i\<close>: every comparison with NaN is false.\<close>

fun js_gt :: "nat \<Rightarrow> jsnum \<Rightarrow> bool" where
  "js_gt n NaN = False"
| "js_gt n PosInf = False"
| "js_gt n NegInf = True"
| "js_gt n (Fin r) = (r < of_nat n)"

text \<open>
  A timestamp is the clock reading behind \<^verbatim>\<open>new Date().toISOString()\<close>, in milliseconds
  since the epoch: \<^verbatim>\<open>new Date(iso)\<close> reads the same number back, which is all the inbox's
  comparator uses. The clock is an input of every operation that stamps something.
\<close>

type_synonym timestamp = int

subsection \<open>Data model\<close>

datatype role = User | Ai | Human

datatype condition = CondAI | CondHuman

text \<open>A message \<^verbatim>\<open>{i, role, text, t}\<close>.\<close>

record message =
  msg_i :: nat
  msg_role :: role
  msg_text :: jsstring
  msg_t :: timestamp

text \<open>A session \<^verbatim>\<open>{id, condition, createdAt, messages, awaitingOperator}\<close>.\<close>

record session =
  sess_id :: jsstring
  condition :: condition
  createdAt :: timestamp
  messages :: "message list"
  awaitingOperator :: bool

text \<open>
  The store: the \<^verbatim>\<open>sessions\<close> Map, which iterates in insertion order, as an association
  list from ids to session objects, and the counter \<^verbatim>\<open>globalIndex\<close>. The counter is a
  natural number: a JavaScript number counts exactly up to \<open>2 ^ 53\<close>, far beyond the
  number of messages the process can hold.
\<close>

record store =
  sessions :: "(jsstring \<times> session) list"
  globalIndex :: nat

definition empty_store :: store where
  "empty_store = \<lparr>sessions = [], globalIndex = 0\<rparr>"

text \<open>
  \<^verbatim>\<open>sessions.get(v)\<close>: the keys are strings, so no other value finds a session.
\<close>

fun sessions_get :: "store \<Rightarrow> jsval \<Rightarrow> (jsstring \<times> session) option" where
  "sessions_get st (JStr k) = map_option (\<lambda>s. (k, s)) (map_of (sessions st) k)"
| "sessions_get st (JOther b r) = None"

text \<open>The session object registered under a key, read again after a mutation.\<close>

definition messages_of :: "store \<Rightarrow> jsstring \<Rightarrow> message list" where
  "messages_of st k = (case map_of (sessions st) k of None \<Rightarrow> [] | Some s \<Rightarrow> messages s)"

subsection \<open>Helpers of the source\<close>

text \<open>
  \<^verbatim>\<open>createSession(mode)\<close>. The inputs from outside the program are the value of
  \<^verbatim>\<open>mode.toUpperCase()\<close>, the outcome of \<^verbatim>\<open>Math.random() < 0.5\<close>, the id drawn by
  \<^verbatim>\<open>nanoid(10)\<close> and the clock. \<^verbatim>\<open>sessions.set\<close> replaces the value of a key that is
  already there and appends a new key.
\<close>

definition createSession :: "jsstring \<Rightarrow> bool \<Rightarrow> jsstring \<Rightarrow> timestamp \<Rightarrow> store \<Rightarrow> session \<times> store" where
  "createSession modeUpper coin newid now st =
     (let pick = (if modeUpper = utf16 ''AI'' then CondAI
                  else if modeUpper = utf16 ''HUMAN'' then CondHuman
                  else if coin then CondAI
                  else CondHuman);
          s = \<lparr>sess_id = newid, condition = pick, createdAt = now, messages = [],
               awaitingOperator = False\<rparr>
      in (s, st\<lparr>sessions := AList.update newid s (sessions st)\<rparr>))"

text \<open>
  \<^verbatim>\<open>pushMessage(session, role, text)\<close>. The session object is named by its key in the
  Map; the function increments the counter, builds the message and appends it to that
  session's log. It does not touch the text and does not touch \<^verbatim>\<open>awaitingOperator\<close>.
\<close>

definition pushMessage :: "jsstring \<Rightarrow> role \<Rightarrow> jsstring \<Rightarrow> timestamp \<Rightarrow> store \<Rightarrow> message \<times> store" where
  "pushMessage k r txt now st =
     (let msg = \<lparr>msg_i = globalIndex st + 1, msg_role = r, msg_text = txt, msg_t = now\<rparr>
      in (msg, st\<lparr>globalIndex := globalIndex st + 1,
                  sessions := AList.map_entry k (\<lambda>s. s\<lparr>messages := messages s @ [msg]\<rparr>)
                                (sessions st)\<rparr>))"

text \<open>The assignment \<^verbatim>\<open>s.awaitingOperator = b\<close> on the session object under a key.\<close>

definition set_awaitingOperator :: "jsstring \<Rightarrow> bool \<Rightarrow> store \<Rightarrow> store" where
  "set_awaitingOperator k b st =
     st\<lparr>sessions := AList.map_entry k (\<lambda>s. s\<lparr>awaitingOperator := b\<rparr>) (sessions st)\<rparr>"

text \<open>
  \<^verbatim>\<open>isAwaitingOperator(session)\<close>: reading past the end of an empty log gives undefined,
  and \<^verbatim>\<open>!!last\<close> is then false.
\<close>

definition isAwaitingOperator :: "session \<Rightarrow> bool" where
  "isAwaitingOperator s =
     (if condition s \<noteq> CondHuman then False
      else case messages s of
             [] \<Rightarrow> False
           | _ # _ \<Rightarrow> msg_role (last (messages s)) = User)"

subsection \<open>The responder\<close>

text \<open>
  What the remote call of \<^verbatim>\<open>askGemini\<close> can come to: \<^verbatim>\<open>fetch\<close> rejects; the response is
  not ok, with its status and body; the body of an ok response cannot be read as the code
  reads it (\<^verbatim>\<open>r.json()\<close> rejects, or \<^verbatim>\<open>trim\<close> is applied to something that is no string);
  or the optional chain down to the first candidate's text gives a trimmed string or
  undefined.
\<close>

datatype fetch_result =
    Fetch_rejects
  | Not_ok nat jsstring
  | Unreadable
  | Candidate "jsstring option"

datatype gemini_role = Role_user | Role_model

text \<open>The \<^verbatim>\<open>contents\<close> array of the request: the mapped history, then the prompt.\<close>

definition contents :: "jsval \<Rightarrow> message list \<Rightarrow> (gemini_role \<times> jsval) list" where
  "contents prompt history =
     map (\<lambda>h. (if msg_role h = User then Role_user else Role_model, JStr (msg_text h))) history
     @ [(Role_user, prompt)]"

text \<open>
  \<^verbatim>\<open>askGemini(prompt, history)\<close>, with the environment variable \<^verbatim>\<open>GEMINI_API_KEY\<close> and the
  network as parameters. \<open>None\<close> is a thrown exception. Without a key the stub answers
  with a template literal around the prompt.
\<close>

definition stub_prefix :: jsstring where
  "stub_prefix = [0xD83E, 0xDDEA] @ utf16 '' (Stub IA) Me pediste: '' @ [0x22]"

definition stub_suffix :: jsstring where
  "stub_suffix = [0x22] @ utf16 ''. Configura GEMINI_API_KEY para usar Gemini.''"

definition no_response :: jsstring where
  "no_response = utf16 ''No obtuve respuesta del modelo.''"

definition askGemini ::
  "jsstring option \<Rightarrow> (jsstring \<Rightarrow> (gemini_role \<times> jsval) list \<Rightarrow> fetch_result) \<Rightarrow>
     jsval \<Rightarrow> message list \<Rightarrow> jsstring option" where
  "askGemini GEMINI_API_KEY fetch prompt history =
     (case GEMINI_API_KEY of
        None \<Rightarrow> map_option (\<lambda>p. stub_prefix @ p @ stub_suffix) (String_js prompt)
      | Some apiKey \<Rightarrow>
          if apiKey = [] then map_option (\<lambda>p. stub_prefix @ p @ stub_suffix) (String_js prompt)
          else (case fetch apiKey (contents prompt history) of
                  Fetch_rejects \<Rightarrow> None
                | Not_ok status txt \<Rightarrow> None
                | Unreadable \<Rightarrow> None
                | Candidate None \<Rightarrow> Some no_response
                | Candidate (Some text) \<Rightarrow> Some (if text = [] then no_response else text)))"

subsection \<open>Responses\<close>

text \<open>
  The error answers of the handlers, under the names of the specification:
  400 \<^verbatim>\<open>sessionId y text son requeridos\<close> is \<open>MissingFields\<close>, 404 is \<open>NotFound\<close>,
  the 400 for a session that is not human is \<open>InvalidState\<close>, 400 \<^verbatim>\<open>Texto requerido\<close> is
  \<open>InvalidInput\<close>, and the 500 of the catch block is \<open>Internal\<close>.
\<close>

datatype error = MissingFields | NotFound | InvalidState | InvalidInput | Internal

fun status :: "error \<Rightarrow> nat" where
  "status MissingFields = 400"
| "status NotFound = 404"
| "status InvalidState = 400"
| "status InvalidInput = 400"
| "status Internal = 500"

record inbox_item =
  sessionId :: jsstring
  lastUserText :: jsstring
  lastAt :: timestamp

text \<open>
  The JSON bodies the handlers send. \<open>Uncaught\<close> is an exception that leaves a handler
  which has no catch block; the transport layer answers it.
\<close>

datatype response =
    Session_created jsstring condition
  | Chat_reply jsstring
  | Chat_queued
  | Messages "message list" bool
  | Inbox "inbox_item list"
  | Ok_true
  | Failed error
  | Uncaught

subsection \<open>Route handlers\<close>

text \<open>\<^verbatim>\<open>POST /api/session\<close>.\<close>

definition post_session :: "jsstring \<Rightarrow> bool \<Rightarrow> jsstring \<Rightarrow> timestamp \<Rightarrow> store \<Rightarrow> response \<times> store" where
  "post_session modeUpper coin newid now st =
     (let (s, st') = createSession modeUpper coin newid now st
      in (Session_created (sess_id s) (condition s), st'))"

text \<open>
  \<^verbatim>\<open>POST /api/chat\<close> runs in two parts, separated by the \<^verbatim>\<open>await\<close> on the responder, and
  other requests may be served in between. The first part either answers, or suspends
  with the prompt and the history it hands to \<^verbatim>\<open>askGemini\<close>. The prompt is the request's
  \<^verbatim>\<open>text\<close> as it came, the stored message holds its first 2000 code units, and the
  history is read from the log after the user message was pushed.
\<close>

datatype chat_step = Respond response | Await jsstring jsval "message list"

definition chat_intake :: "jsval \<Rightarrow> jsval \<Rightarrow> timestamp \<Rightarrow> store \<Rightarrow> chat_step \<times> store" where
  "chat_intake sid text now st =
     (if \<not> truthy sid \<or> \<not> truthy text then (Respond (Failed MissingFields), st)
      else case sessions_get st sid of
        None \<Rightarrow> (Respond (Failed NotFound), st)
      | Some (k, s) \<Rightarrow>
          (case String_js text of
             None \<Rightarrow> (Respond (Failed Internal), st)
           | Some str \<Rightarrow>
               (let (msg, st1) = pushMessage k User (slice0 2000 str) now st
                in if condition s = CondAI
                   then (Await k text (filter (\<lambda>m. msg_role m \<noteq> Ai) (messages_of st1 k)), st1)
                   else (Respond Chat_queued, set_awaitingOperator k True st1))))"

text \<open>
  The second part, once the responder has returned a reply or thrown (\<open>None\<close>): the reply
  is pushed as it is, and a throw goes to the catch block, which answers 500.
\<close>

definition chat_resume :: "jsstring \<Rightarrow> jsstring option \<Rightarrow> timestamp \<Rightarrow> store \<Rightarrow> response \<times> store" where
  "chat_resume k outcome now st =
     (case outcome of
        None \<Rightarrow> (Failed Internal, st)
      | Some reply \<Rightarrow>
          (let (msg, st1) = pushMessage k Ai reply now st
           in (Chat_reply reply, st1)))"

text \<open>
  The whole handler when nothing else is served during the \<^verbatim>\<open>await\<close>; \<open>ask\<close> is the
  responder and \<open>now'\<close> the clock when it returns.
\<close>

definition post_chat ::
  "(jsval \<Rightarrow> message list \<Rightarrow> jsstring option) \<Rightarrow> jsval \<Rightarrow> jsval \<Rightarrow> timestamp \<Rightarrow> timestamp \<Rightarrow>
     store \<Rightarrow> response \<times> store" where
  "post_chat ask sid text now now' st =
     (case chat_intake sid text now st of
        (Respond r, st1) \<Rightarrow> (r, st1)
      | (Await k prompt history, st1) \<Rightarrow> chat_resume k (ask prompt history) now' st1)"

text \<open>\<^verbatim>\<open>GET /api/messages\<close>, with \<open>a\<close> the number \<^verbatim>\<open>Number(req.query.after || 0)\<close>.\<close>

definition get_messages :: "jsval \<Rightarrow> jsnum \<Rightarrow> store \<Rightarrow> response \<times> store" where
  "get_messages sid a st =
     (case sessions_get st sid of
        None \<Rightarrow> (Failed NotFound, st)
      | Some (k, s) \<Rightarrow>
          (Messages (filter (\<lambda>m. js_gt (msg_i m) a) (messages s)) (isAwaitingOperator s), st))"

text \<open>
  \<^verbatim>\<open>GET /api/operator/inbox\<close>. The entry of a session looks for the last user message in
  a reversed copy of the log; \<^verbatim>\<open>x || y\<close> falls back when the message is missing, and an
  empty text falls back to the empty string, which it is.
\<close>

definition inbox_entry :: "session \<Rightarrow> inbox_item" where
  "inbox_entry s =
     (let lastUser = find (\<lambda>m. msg_role m = User) (rev (messages s))
      in \<lparr>sessionId = sess_id s,
          lastUserText = (case lastUser of None \<Rightarrow> [] | Some m \<Rightarrow> msg_text m),
          lastAt = (case lastUser of None \<Rightarrow> createdAt s | Some m \<Rightarrow> msg_t m)\<rparr>)"

text \<open>The loop over \<^verbatim>\<open>sessions.values()\<close>, with the items pushed so far.\<close>

fun inbox_loop :: "session list \<Rightarrow> inbox_item list \<Rightarrow> inbox_item list" where
  "inbox_loop [] items = items"
| "inbox_loop (s # ss) items =
     (if condition s \<noteq> CondHuman then inbox_loop ss items
      else if isAwaitingOperator s then inbox_loop ss (items @ [inbox_entry s])
      else inbox_loop ss items)"

text \<open>
  \<^verbatim>\<open>items.sort((a, b) => new Date(b.lastAt) - new Date(a.lastAt))\<close>: the sort of an array
  is stable, and this comparator orders by descending time.
\<close>

definition sort_desc :: "inbox_item list \<Rightarrow> inbox_item list" where
  "sort_desc items = sort_key (\<lambda>it. - lastAt it) items"

definition get_inbox :: "store \<Rightarrow> response \<times> store" where
  "get_inbox st = (Inbox (sort_desc (inbox_loop (map snd (sessions st)) [])), st)"

text \<open>
  \<^verbatim>\<open>POST /api/operator/reply\<close>. The handler has no catch block, so a throwing
  \<^verbatim>\<open>String(text)\<close> leaves it before anything is pushed.
\<close>

definition post_operator_reply :: "jsval \<Rightarrow> jsval \<Rightarrow> timestamp \<Rightarrow> store \<Rightarrow> response \<times> store" where
  "post_operator_reply sid text now st =
     (case sessions_get st sid of
        None \<Rightarrow> (Failed NotFound, st)
      | Some (k, s) \<Rightarrow>
          if condition s \<noteq> CondHuman then (Failed InvalidState, st)
          else if \<not> truthy text then (Failed InvalidInput, st)
          else (case String_js text of
                  None \<Rightarrow> (Uncaught, st)
                | Some str \<Rightarrow>
                    (let (msg, st1) = pushMessage k Human (slice0 2000 str) now st
                     in (Ok_true, set_awaitingOperator k False st1))))"

subsection \<open>Runs of the server\<close>

text \<open>
  The process serves one request at a time, to completion or to its \<^verbatim>\<open>await\<close>. An event
  is one such piece of work, with the inputs it takes from outside: a request with its
  parameters and the clock, or the return of the responder to a suspended chat handler,
  with its outcome. Next to the store, a run keeps the suspended chat handlers, each
  holding the session object it fetched.
\<close>

datatype event =
    Create_session jsstring bool jsstring timestamp
  | Chat jsval jsval timestamp
  | Responder_returns nat "jsstring option" timestamp
  | Poll jsval jsnum
  | List_inbox
  | Operator_reply jsval jsval timestamp

type_synonym world = "store \<times> jsstring list"

text \<open>
  One event. Two events cannot happen and give \<open>None\<close>: \<^verbatim>\<open>nanoid\<close> drawing an id that is
  already a key of the Map (ids are taken to be unique), and the return of a responder
  call that nobody is waiting for.
\<close>

fun step :: "event \<Rightarrow> world \<Rightarrow> world option" where
  "step (Create_session modeUpper coin newid now) (st, pend) =
     (if newid \<in> set (map fst (sessions st)) then None
      else Some (snd (post_session modeUpper coin newid now st), pend))"
| "step (Chat sid text now) (st, pend) =
     (case chat_intake sid text now st of
        (Respond r, st1) \<Rightarrow> Some (st1, pend)
      | (Await k prompt history, st1) \<Rightarrow> Some (st1, pend @ [k]))"
| "step (Responder_returns n outcome now) (st, pend) =
     (if n < length pend
      then Some (snd (chat_resume (pend ! n) outcome now st), take n pend @ drop (Suc n) pend)
      else None)"
| "step (Poll sid a) (st, pend) = Some (snd (get_messages sid a st), pend)"
| "step List_inbox (st, pend) = Some (snd (get_inbox st), pend)"
| "step (Operator_reply sid text now) (st, pend) =
     Some (snd (post_operator_reply sid text now st), pend)"

fun run :: "event list \<Rightarrow> world \<Rightarrow> world option" where
  "run [] w = Some w"
| "run (e # es) w = (case step e w of None \<Rightarrow> None | Some w1 \<Rightarrow> run es w1)"

definition start :: world where
  "start = (empty_store, [])"

subsection \<open>Predicates on stores and runs\<close>

text \<open>A property of every session object the Map holds.\<close>

definition every_session :: "(session \<Rightarrow> bool) \<Rightarrow> store \<Rightarrow> bool" where
  "every_session P st = (\<forall>(k, s) \<in> set (sessions st). P s)"

text \<open>The stored flag of a session agrees with what \<^verbatim>\<open>isAwaitingOperator\<close> computes.\<close>

definition flag_ok :: "session \<Rightarrow> bool" where
  "flag_ok s = (awaitingOperator s = isAwaitingOperator s)"

text \<open>Every suspended chat handler holds a session of the Map whose condition is AI.\<close>

definition suspended_ok :: "world \<Rightarrow> bool" where
  "suspended_ok w = (case w of (st, pend) \<Rightarrow>
     (\<forall>k \<in> set pend. \<exists>s. map_of (sessions st) k = Some s \<and> condition s = CondAI))"

text \<open>
  The sequence numbers of a session's log under the counter value \<open>g\<close>: none exceeds
  \<open>g\<close>, and they increase strictly along the log.
\<close>

definition numbered :: "nat \<Rightarrow> session \<Rightarrow> bool" where
  "numbered g s = ((\<forall>m \<in> set (messages s). msg_i m \<le> g) \<and>
                   sorted_wrt (<) (map msg_i (messages s)))"

text \<open>The messages of a session that came in through a request hold at most 2000 code units.\<close>

definition intake_bounded :: "session \<Rightarrow> bool" where
  "intake_bounded s = (\<forall>m \<in> set (messages s). msg_role m \<noteq> Ai \<longrightarrow> length (msg_text m) \<le> 2000)"

text \<open>A network on which every \<^verbatim>\<open>fetch\<close> rejects.\<close>

definition offline :: "jsstring \<Rightarrow> (gemini_role \<times> jsval) list \<Rightarrow> fetch_result" where
  "offline apiKey body = Fetch_rejects"

text \<open>
  The inbox entry of a session in the words of the specification: the most recent
  message of role \<open>user\<close> gives the text and the time, and a session without one gives
  the empty text and its creation time.
\<close>

definition last_user_message :: "session \<Rightarrow> message option" where
  "last_user_message s =
     (case filter (\<lambda>m. msg_role m = User) (messages s) of
        [] \<Rightarrow> None
      | m # ms \<Rightarrow> Some (last (m # ms)))"

definition spec_inbox_entry :: "session \<Rightarrow> inbox_item" where
  "spec_inbox_entry s =
     \<lparr>sessionId = sess_id s,
      lastUserText = (case last_user_message s of None \<Rightarrow> [] | Some m \<Rightarrow> msg_text m),
      lastAt = (case last_user_message s of None \<Rightarrow> createdAt s | Some m \<Rightarrow> msg_t m)\<rparr>"

section \<open>Lemmas\<close>

subsection \<open>Association lists\<close>

lemma in_map_entryD:
  "(k', s') \<in> set (AList.map_entry k f xs) \<Longrightarrow>
     (k', s') \<in> set xs \<or> (k' = k \<and> (\<exists>v. map_of xs k = Some v \<and> s' = f v))"
  by (induction xs) (auto split: if_splits)

lemma in_updateD:
  "(k', s') \<in> set (AList.update k v xs) \<Longrightarrow> (k', s') \<in> set xs \<or> (k' = k \<and> s' = v)"
  by (induction xs) (auto split: if_splits)

lemma map_entry_twice:
  "AList.map_entry k g (AList.map_entry k f xs) = AList.map_entry k (\<lambda>s. g (f s)) xs"
  by (induction xs) auto

lemma not_CondAI: "(c \<noteq> CondAI) = (c = CondHuman)"
  by (cases c) auto

lemma not_CondHuman: "(c \<noteq> CondHuman) = (c = CondAI)"
  by (cases c) auto

subsection \<open>Effects of the helpers\<close>

lemma every_sessionD:
  "every_session P st \<Longrightarrow> map_of (sessions st) k = Some s \<Longrightarrow> P s"
  by (auto simp: every_session_def dest: map_of_SomeD)

lemma every_session_map_entry:
  assumes "every_session P st"
    and "\<And>s. P s \<Longrightarrow> Q s"
    and "\<And>s. map_of (sessions st) k = Some s \<Longrightarrow> P s \<Longrightarrow> Q (f s)"
    and "sessions st' = AList.map_entry k f (sessions st)"
  shows "every_session Q st'"
  unfolding every_session_def
proof (clarify)
  fix k' s' assume "(k', s') \<in> set (sessions st')"
  then have "(k', s') \<in> set (sessions st) \<or> (\<exists>v. map_of (sessions st) k = Some v \<and> s' = f v)"
    using assms(4) in_map_entryD[of k' s' k f "sessions st"] by auto
  then show "Q s'"
    using assms(1,2,3) every_sessionD[OF assms(1)] by (auto simp: every_session_def)
qed

lemma pushMessage_fst:
  "fst (pushMessage k r txt now st) =
     \<lparr>msg_i = globalIndex st + 1, msg_role = r, msg_text = txt, msg_t = now\<rparr>"
  by (simp add: pushMessage_def Let_def)

lemma pushMessage_sessions:
  "sessions (snd (pushMessage k r txt now st)) =
     AList.map_entry k (\<lambda>s. s\<lparr>messages := messages s @ [fst (pushMessage k r txt now st)]\<rparr>)
       (sessions st)"
  by (simp add: pushMessage_def Let_def)

lemma pushMessage_globalIndex:
  "globalIndex (snd (pushMessage k r txt now st)) = globalIndex st + 1"
  by (simp add: pushMessage_def Let_def)

lemma push_set_sessions:
  "sessions (set_awaitingOperator k b (snd (pushMessage k r txt now st))) =
     AList.map_entry k
       (\<lambda>s. s\<lparr>messages := messages s @ [fst (pushMessage k r txt now st)],
              awaitingOperator := b\<rparr>)
       (sessions st)"
  by (simp add: set_awaitingOperator_def pushMessage_sessions map_entry_twice)

lemma push_set_globalIndex:
  "globalIndex (set_awaitingOperator k b (snd (pushMessage k r txt now st))) = globalIndex st + 1"
  by (simp add: set_awaitingOperator_def pushMessage_globalIndex)

lemma isAwaitingOperator_iff:
  "isAwaitingOperator s \<longleftrightarrow>
     condition s = CondHuman \<and> messages s \<noteq> [] \<and> msg_role (last (messages s)) = User"
  by (simp add: isAwaitingOperator_def split: list.splits)

lemma sessions_getD:
  "sessions_get st sid = Some (k, s) \<Longrightarrow> sid = JStr k \<and> map_of (sessions st) k = Some s"
  by (cases sid) auto

subsection \<open>The branches of the handlers\<close>

lemma chat_intake_cases [case_names missing not_found throws ai human]:
  obtains
    (missing) "\<not> truthy sid \<or> \<not> truthy txt"
      "chat_intake sid txt now st = (Respond (Failed MissingFields), st)"
  | (not_found) "truthy sid" "truthy txt" "sessions_get st sid = None"
      "chat_intake sid txt now st = (Respond (Failed NotFound), st)"
  | (throws) k s where "truthy txt" "sid = JStr k" "map_of (sessions st) k = Some s"
      "String_js txt = None"
      "chat_intake sid txt now st = (Respond (Failed Internal), st)"
  | (ai) k s str where "truthy txt" "sid = JStr k" "map_of (sessions st) k = Some s"
      "String_js txt = Some str" "condition s = CondAI"
      "chat_intake sid txt now st =
         (Await k txt (filter (\<lambda>m. msg_role m \<noteq> Ai)
                        (messages s @ [fst (pushMessage k User (slice0 2000 str) now st)])),
          snd (pushMessage k User (slice0 2000 str) now st))"
  | (human) k s str where "truthy txt" "sid = JStr k" "map_of (sessions st) k = Some s"
      "String_js txt = Some str" "condition s = CondHuman"
      "chat_intake sid txt now st =
         (Respond Chat_queued,
          set_awaitingOperator k True (snd (pushMessage k User (slice0 2000 str) now st)))"
proof (cases "\<not> truthy sid \<or> \<not> truthy txt")
  case True
  then show ?thesis using missing by (simp add: chat_intake_def)
next
  case ok: False
  show ?thesis
  proof (cases "sessions_get st sid")
    case None
    then show ?thesis using ok not_found by (simp add: chat_intake_def)
  next
    case (Some p)
    obtain k s where p: "p = (k, s)" by (cases p)
    note ks = sessions_getD[OF Some[unfolded p]]
    show ?thesis
    proof (cases "String_js txt")
      case None
      then show ?thesis using ok Some p ks throws[of k s] by (simp add: chat_intake_def)
    next
      case (Some str)
      have hist: "messages_of (snd (pushMessage k User (slice0 2000 str) now st)) k =
                  messages s @ [fst (pushMessage k User (slice0 2000 str) now st)]"
        using ks by (simp add: messages_of_def pushMessage_sessions AList.map_of_map_entry)
      show ?thesis
      proof (cases "condition s")
        case CondAI
        then show ?thesis
          using ok \<open>sessions_get st sid = Some p\<close> p ks Some hist ai[of k s str]
          by (simp add: chat_intake_def split_beta Let_def)
      next
        case CondHuman
        then show ?thesis
          using ok \<open>sessions_get st sid = Some p\<close> p ks Some human[of k s str]
          by (simp add: chat_intake_def split_beta Let_def)
      qed
    qed
  qed
qed

lemma post_operator_reply_cases [case_names not_found invalid_state invalid_input throws ok]:
  obtains
    (not_found) "sessions_get st sid = None"
      "post_operator_reply sid txt now st = (Failed NotFound, st)"
  | (invalid_state) k s where "sid = JStr k" "map_of (sessions st) k = Some s"
      "condition s = CondAI"
      "post_operator_reply sid txt now st = (Failed InvalidState, st)"
  | (invalid_input) k s where "sid = JStr k" "map_of (sessions st) k = Some s"
      "condition s = CondHuman" "\<not> truthy txt"
      "post_operator_reply sid txt now st = (Failed InvalidInput, st)"
  | (throws) k s where "sid = JStr k" "map_of (sessions st) k = Some s"
      "condition s = CondHuman" "truthy txt" "String_js txt = None"
      "post_operator_reply sid txt now st = (Uncaught, st)"
  | (ok) k s str where "sid = JStr k" "map_of (sessions st) k = Some s"
      "condition s = CondHuman" "truthy txt" "String_js txt = Some str"
      "post_operator_reply sid txt now st =
         (Ok_true,
          set_awaitingOperator k False (snd (pushMessage k Human (slice0 2000 str) now st)))"
proof (cases "sessions_get st sid")
  case None
  then show ?thesis using not_found by (simp add: post_operator_reply_def)
next
  case (Some p)
  obtain k s where p: "p = (k, s)" by (cases p)
  note ks = sessions_getD[OF Some[unfolded p]]
  show ?thesis
  proof (cases "condition s")
    case CondAI
    then show ?thesis using Some p ks invalid_state[of k s]
      by (simp add: post_operator_reply_def)
  next
    case CondHuman
    show ?thesis
    proof (cases "truthy txt")
      case False
      then show ?thesis using Some p ks CondHuman invalid_input[of k s]
        by (simp add: post_operator_reply_def)
    next
      case True
      show ?thesis
      proof (cases "String_js txt")
        case None
        then show ?thesis
          using \<open>sessions_get st sid = Some p\<close> p ks CondHuman True throws[of k s]
          by (simp add: post_operator_reply_def)
      next
        case (Some str)
        then show ?thesis
          using \<open>sessions_get st sid = Some p\<close> p ks CondHuman True ok[of k s str]
          by (simp add: post_operator_reply_def split_beta Let_def)
      qed
    qed
  qed
qed

lemma chat_resume_None: "chat_resume k None now st = (Failed Internal, st)"
  by (simp add: chat_resume_def)

lemma chat_resume_Some:
  "chat_resume k (Some reply) now st = (Chat_reply reply, snd (pushMessage k Ai reply now st))"
  by (simp add: chat_resume_def split_beta Let_def)

lemma post_session_store:
  "snd (post_session modeUpper coin newid now st) =
     st\<lparr>sessions := AList.update newid (fst (createSession modeUpper coin newid now st))
                       (sessions st)\<rparr>"
  by (simp add: post_session_def createSession_def Let_def)

lemma createSession_fst:
  "messages (fst (createSession modeUpper coin newid now st)) = []"
  "awaitingOperator (fst (createSession modeUpper coin newid now st)) = False"
  "sess_id (fst (createSession modeUpper coin newid now st)) = newid"
  "createdAt (fst (createSession modeUpper coin newid now st)) = now"
  by (simp_all add: createSession_def Let_def)

lemma get_messages_store: "snd (get_messages sid a st) = st"
  by (simp add: get_messages_def split: option.splits)

lemma get_inbox_store: "snd (get_inbox st) = st"
  by (simp add: get_inbox_def)

subsection \<open>Invariants of runs\<close>

lemma run_invariant:
  assumes "P w0" and "\<And>e w w'. P w \<Longrightarrow> step e w = Some w' \<Longrightarrow> P w'"
  shows "run evs w0 = Some w \<Longrightarrow> P w"
  using assms(1)
proof (induction evs arbitrary: w0)
  case Nil
  then show ?case by simp
next
  case (Cons e es)
  then show ?case using assms(2) by (auto split: option.splits)
qed

text \<open>
  A predicate on sessions that the new session of \<^verbatim>\<open>createSession\<close> satisfies and that
  every append of the handlers preserves holds of every session of every store.
\<close>

lemma every_session_create:
  assumes "every_session P st" "P (fst (createSession modeUpper coin newid now st))"
  shows "every_session P (snd (post_session modeUpper coin newid now st))"
  using assms by (auto simp: every_session_def post_session_store dest!: in_updateD)

lemma suspended_ok_map_entry:
  assumes "suspended_ok (st, pend)" "\<And>s. condition (f s) = condition s"
    and "sessions st' = AList.map_entry k f (sessions st)"
  shows "suspended_ok (st', pend)"
  using assms by (auto simp: suspended_ok_def AList.map_of_map_entry)

lemma suspended_ok_push:
  "suspended_ok (st, pend) \<Longrightarrow> suspended_ok (snd (pushMessage k r txt now st), pend)"
  by (rule suspended_ok_map_entry[OF _ _ pushMessage_sessions]) auto

lemma suspended_ok_push_set:
  "suspended_ok (st, pend) \<Longrightarrow>
     suspended_ok (set_awaitingOperator k b (snd (pushMessage k r txt now st)), pend)"
  by (rule suspended_ok_map_entry[OF _ _ push_set_sessions]) auto

lemma suspended_ok_step:
  assumes "suspended_ok w" "step e w = Some w'"
  shows "suspended_ok w'"
proof -
  obtain st pend where w: "w = (st, pend)" by (cases w)
  show ?thesis
  proof (cases e)
    case (Create_session modeUpper coin newid now)
    with assms w have fresh: "map_of (sessions st) newid = None"
      and w': "w' = (snd (post_session modeUpper coin newid now st), pend)"
      by (auto simp: map_of_eq_None_iff split: if_splits)
    show ?thesis using assms(1) w fresh unfolding w'
      by (auto simp: suspended_ok_def post_session_store AList.update_conv')
  next
    case (Chat sid tx now)
    show ?thesis
    proof (cases sid tx now st rule: chat_intake_cases)
      case (ai k s str)
      then have "w' = (snd (pushMessage k User (slice0 2000 str) now st), pend @ [k])"
        using assms(2) w Chat by simp
      moreover have "suspended_ok (snd (pushMessage k User (slice0 2000 str) now st), pend)"
        using assms(1) w suspended_ok_push by simp
      moreover have "\<exists>s'. map_of (sessions (snd (pushMessage k User (slice0 2000 str) now st))) k
                          = Some s' \<and> condition s' = CondAI"
        using ai by (simp add: pushMessage_sessions AList.map_of_map_entry)
      ultimately show ?thesis by (auto simp: suspended_ok_def)
    next
      case (human k s str)
      then show ?thesis using assms w Chat suspended_ok_push_set by auto
    qed (use assms w Chat in auto)
  next
    case (Responder_returns n outcome now)
    with assms w have n: "n < length pend"
      and w': "w' = (snd (chat_resume (pend ! n) outcome now st), take n pend @ drop (Suc n) pend)"
      by (auto split: if_splits)
    have sub: "set (take n pend @ drop (Suc n) pend) \<subseteq> set pend"
      using set_take_subset[of n pend] set_drop_subset[of "Suc n" pend] by auto
    have "suspended_ok (snd (chat_resume (pend ! n) outcome now st), pend)"
      using assms(1) w suspended_ok_push
      by (cases outcome) (auto simp: chat_resume_None chat_resume_Some)
    then show ?thesis using sub unfolding w' by (auto simp: suspended_ok_def)
  next
    case (Poll sid a)
    then show ?thesis using assms w by (auto simp: get_messages_store)
  next
    case List_inbox
    then show ?thesis using assms w by (auto simp: get_inbox_store)
  next
    case (Operator_reply sid tx now)
    show ?thesis
    proof (cases sid tx now st rule: post_operator_reply_cases)
      case (ok k s str)
      then show ?thesis using assms w Operator_reply suspended_ok_push_set by auto
    qed (use assms w Operator_reply in auto)
  qed
qed

text \<open>
  The appends of the handlers, session by session: a predicate \<open>P g s\<close> on a session
  and the value of the counter that holds of a new session, that survives an increment
  of the counter, and that each of the four appends of the handlers preserves, holds of
  every session after every step.
\<close>

lemma every_session_step:
  fixes P :: "nat \<Rightarrow> session \<Rightarrow> bool"
  assumes mono: "\<And>g s. P g s \<Longrightarrow> P (Suc g) s"
    and new: "\<And>g modeUpper coin newid now st. P g (fst (createSession modeUpper coin newid now st))"
    and user_ai: "\<And>g s str now. P g s \<Longrightarrow> condition s = CondAI \<Longrightarrow>
        P (Suc g) (s\<lparr>messages := messages s @
           [\<lparr>msg_i = Suc g, msg_role = User, msg_text = slice0 2000 str, msg_t = now\<rparr>]\<rparr>)"
    and user_human: "\<And>g s str now. P g s \<Longrightarrow> condition s = CondHuman \<Longrightarrow>
        P (Suc g) (s\<lparr>messages := messages s @
           [\<lparr>msg_i = Suc g, msg_role = User, msg_text = slice0 2000 str, msg_t = now\<rparr>],
           awaitingOperator := True\<rparr>)"
    and reply_ai: "\<And>g s reply now. P g s \<Longrightarrow> condition s = CondAI \<Longrightarrow>
        P (Suc g) (s\<lparr>messages := messages s @
           [\<lparr>msg_i = Suc g, msg_role = Ai, msg_text = reply, msg_t = now\<rparr>]\<rparr>)"
    and reply_human: "\<And>g s str now. P g s \<Longrightarrow> condition s = CondHuman \<Longrightarrow>
        P (Suc g) (s\<lparr>messages := messages s @
           [\<lparr>msg_i = Suc g, msg_role = Human, msg_text = slice0 2000 str, msg_t = now\<rparr>],
           awaitingOperator := False\<rparr>)"
    and inv: "every_session (P (globalIndex st)) st" "suspended_ok (st, pend)"
    and st: "step e (st, pend) = Some (st', pend')"
  shows "every_session (P (globalIndex st')) st'"
proof (cases e)
  case (Create_session modeUpper coin newid now)
  then have "st' = snd (post_session modeUpper coin newid now st)"
    using st by (auto split: if_splits)
  then show ?thesis
    using every_session_create[OF inv(1) new] by (simp add: post_session_store)
next
  case (Chat sid tx now)
  show ?thesis
  proof (cases sid tx now st rule: chat_intake_cases)
    case (ai k s str)
    then have st': "st' = snd (pushMessage k User (slice0 2000 str) now st)"
      using st Chat by simp
    show ?thesis unfolding st' pushMessage_globalIndex
      by (rule every_session_map_entry[OF inv(1) _ _ pushMessage_sessions])
         (use ai mono user_ai in \<open>auto simp: pushMessage_fst\<close>)
  next
    case (human k s str)
    then have st': "st' = set_awaitingOperator k True (snd (pushMessage k User (slice0 2000 str) now st))"
      using st Chat by simp
    show ?thesis unfolding st' push_set_globalIndex
      by (rule every_session_map_entry[OF inv(1) _ _ push_set_sessions])
         (use human mono user_human in \<open>auto simp: pushMessage_fst\<close>)
  qed (use st Chat inv in auto)
next
  case (Responder_returns n outcome now)
  then have n: "n < length pend"
    and st': "st' = snd (chat_resume (pend ! n) outcome now st)"
    using st by (auto split: if_splits)
  obtain s where s: "map_of (sessions st) (pend ! n) = Some s" "condition s = CondAI"
    using inv(2) nth_mem[OF n] by (auto simp: suspended_ok_def)
  show ?thesis
  proof (cases outcome)
    case None
    then show ?thesis using st' inv by (simp add: chat_resume_None)
  next
    case (Some reply)
    show ?thesis unfolding st' Some chat_resume_Some snd_conv pushMessage_globalIndex
      by (rule every_session_map_entry[OF inv(1) _ _ pushMessage_sessions])
         (use s mono reply_ai in \<open>auto simp: pushMessage_fst\<close>)
  qed
next
  case (Poll sid a)
  then show ?thesis using st inv by (auto simp: get_messages_store)
next
  case List_inbox
  then show ?thesis using st inv by (auto simp: get_inbox_store)
next
  case (Operator_reply sid tx now)
  show ?thesis
  proof (cases sid tx now st rule: post_operator_reply_cases)
    case (ok k s str)
    then have st': "st' = set_awaitingOperator k False (snd (pushMessage k Human (slice0 2000 str) now st))"
      using st Operator_reply by simp
    show ?thesis unfolding st' push_set_globalIndex
      by (rule every_session_map_entry[OF inv(1) _ _ push_set_sessions])
         (use ok mono reply_human in \<open>auto simp: pushMessage_fst\<close>)
  qed (use st Operator_reply inv in auto)
qed

lemma every_session_run:
  fixes P :: "nat \<Rightarrow> session \<Rightarrow> bool"
  assumes mono: "\<And>g s. P g s \<Longrightarrow> P (Suc g) s"
    and new: "\<And>g modeUpper coin newid now st. P g (fst (createSession modeUpper coin newid now st))"
    and user_ai: "\<And>g s str now. P g s \<Longrightarrow> condition s = CondAI \<Longrightarrow>
        P (Suc g) (s\<lparr>messages := messages s @
           [\<lparr>msg_i = Suc g, msg_role = User, msg_text = slice0 2000 str, msg_t = now\<rparr>]\<rparr>)"
    and user_human: "\<And>g s str now. P g s \<Longrightarrow> condition s = CondHuman \<Longrightarrow>
        P (Suc g) (s\<lparr>messages := messages s @
           [\<lparr>msg_i = Suc g, msg_role = User, msg_text = slice0 2000 str, msg_t = now\<rparr>],
           awaitingOperator := True\<rparr>)"
    and reply_ai: "\<And>g s reply now. P g s \<Longrightarrow> condition s = CondAI \<Longrightarrow>
        P (Suc g) (s\<lparr>messages := messages s @
           [\<lparr>msg_i = Suc g, msg_role = Ai, msg_text = reply, msg_t = now\<rparr>]\<rparr>)"
    and reply_human: "\<And>g s str now. P g s \<Longrightarrow> condition s = CondHuman \<Longrightarrow>
        P (Suc g) (s\<lparr>messages := messages s @
           [\<lparr>msg_i = Suc g, msg_role = Human, msg_text = slice0 2000 str, msg_t = now\<rparr>],
           awaitingOperator := False\<rparr>)"
    and run: "run evs start = Some (st, pend)"
  shows "every_session (P (globalIndex st)) st"
proof -
  let ?I = "\<lambda>w. every_session (P (globalIndex (fst w))) (fst w) \<and> suspended_ok w"
  have "?I start"
    by (simp add: start_def empty_store_def every_session_def suspended_ok_def)
  moreover have "\<And>e w w'. ?I w \<Longrightarrow> step e w = Some w' \<Longrightarrow> ?I w'"
  proof -
    fix e w w' assume I: "?I w" and s: "step e w = Some w'"
    obtain st pend st' pend' where w: "w = (st, pend)" "w' = (st', pend')"
      by (cases w, cases w') auto
    have "every_session (P (globalIndex st')) st'"
      by (rule every_session_step[where P = P and st = st and pend = pend and e = e and pend' = pend',
            OF mono new user_ai user_human reply_ai reply_human])
         (use I s w in auto)
    then show "?I w'" using suspended_ok_step[OF _ s] I w by simp
  qed
  ultimately have "?I (st, pend)"
    using run by (rule run_invariant[where P = ?I])
  then show ?thesis by simp
qed

lemma flag_ok_run:
  assumes "run evs start = Some (st, pend)"
  shows "every_session flag_ok st"
  by (rule every_session_run[where P = "\<lambda>g. flag_ok", OF _ _ _ _ _ _ assms])
     (auto simp: flag_ok_def isAwaitingOperator_iff createSession_def Let_def)

subsection \<open>Lookups after an append\<close>

lemma push_lookup:
  "map_of (sessions (snd (pushMessage k r t now st))) k' =
     (if k' = k
      then map_option (\<lambda>s. s\<lparr>messages := messages s @ [fst (pushMessage k r t now st)]\<rparr>)
             (map_of (sessions st) k)
      else map_of (sessions st) k')"
  by (simp add: pushMessage_sessions AList.map_of_map_entry split: option.splits)

lemma push_set_lookup:
  "map_of (sessions (set_awaitingOperator k b (snd (pushMessage k r t now st)))) k' =
     (if k' = k
      then map_option (\<lambda>s. s\<lparr>messages := messages s @ [fst (pushMessage k r t now st)],
                            awaitingOperator := b\<rparr>)
             (map_of (sessions st) k)
      else map_of (sessions st) k')"
  by (simp add: push_set_sessions AList.map_of_map_entry split: option.splits)

subsection \<open>Sequence numbers and text lengths along a run\<close>

lemma numbered_run:
  assumes "run evs start = Some (st, pend)"
  shows "every_session (numbered (globalIndex st)) st"
  by (rule every_session_run[where P = numbered, OF _ _ _ _ _ _ assms])
     (auto simp: numbered_def createSession_def Let_def sorted_wrt_append intro: le_SucI)

lemma intake_bounded_run:
  assumes "run evs start = Some (st, pend)"
  shows "every_session intake_bounded st"
  by (rule every_session_run[where P = "\<lambda>g. intake_bounded", OF _ _ _ _ _ _ assms])
     (auto simp: intake_bounded_def createSession_def Let_def slice0_def)

lemma step_globalIndex:
  assumes "step e (st, pend) = Some (st', pend')"
  shows "globalIndex st \<le> globalIndex st'"
proof (cases e)
  case (Create_session modeUpper coin newid now)
  then show ?thesis using assms by (auto simp: post_session_store split: if_splits)
next
  case (Chat sid tx now)
  show ?thesis
    by (cases sid tx now st rule: chat_intake_cases)
       (use assms Chat in \<open>auto simp: pushMessage_globalIndex push_set_globalIndex\<close>)
next
  case (Responder_returns n outcome now)
  then show ?thesis using assms
    by (cases outcome)
       (auto simp: chat_resume_None chat_resume_Some pushMessage_globalIndex split: if_splits)
next
  case (Poll sid a)
  then show ?thesis using assms by (auto simp: get_messages_store)
next
  case List_inbox
  then show ?thesis using assms by (auto simp: get_inbox_store)
next
  case (Operator_reply sid tx now)
  show ?thesis
    by (cases sid tx now st rule: post_operator_reply_cases)
       (use assms Operator_reply in \<open>auto simp: push_set_globalIndex\<close>)
qed

lemma run_globalIndex:
  "run evs w = Some w' \<Longrightarrow> globalIndex (fst w) \<le> globalIndex (fst w')"
proof (induction evs arbitrary: w)
  case Nil
  then show ?case by simp
next
  case (Cons e es)
  then obtain w1 where w1: "step e w = Some w1" "run es w1 = Some w'"
    by (auto split: option.splits)
  have "globalIndex (fst w) \<le> globalIndex (fst w1)"
    using step_globalIndex[of e "fst w" "snd w" "fst w1" "snd w1"] w1(1) by simp
  then show ?case using Cons.IH[OF w1(2)] by simp
qed

subsection \<open>The inbox\<close>

lemma find_rev:
  "find P (rev xs) = (case filter P xs of [] \<Rightarrow> None | y # ys \<Rightarrow> Some (last (y # ys)))"
proof (induction xs rule: rev_induct)
  case Nil
  then show ?case by simp
next
  case (snoc x xs)
  then show ?case by (cases "filter P xs") auto
qed

lemma inbox_entry_spec: "inbox_entry s = spec_inbox_entry s"
  by (simp add: inbox_entry_def spec_inbox_entry_def last_user_message_def find_rev Let_def)

lemma inbox_loop_eq:
  "inbox_loop ss items = items @ map inbox_entry (filter isAwaitingOperator ss)"
  by (induction ss arbitrary: items) (auto simp: isAwaitingOperator_iff)

lemma sorted_sort_desc: "sorted_wrt (\<lambda>a b. lastAt b \<le> lastAt a) (sort_desc items)"
proof -
  have "sorted (map (\<lambda>it. - lastAt it) (sort_desc items))"
    unfolding sort_desc_def by (rule sorted_sort_key)
  then show ?thesis by (simp add: sorted_wrt_map sorted_map)
qed

section \<open>The claims\<close>

subsection \<open>The operator flag\<close>

text \<open>
  C1. After any sequence of requests (sessions created, user messages submitted, polls,
  inbox listings, operator replies, and responder calls returning in any order), every
  session of the store has \<open>awaitingOperator\<close> false when its condition is AI; when its
  condition is Human the flag is true exactly when the log is not empty and its last
  message has role \<open>user\<close>; and the stored flag is what \<^verbatim>\<open>isAwaitingOperator\<close> computes
  from the log.
\<close>

theorem awaitingOperator_rule:
  assumes "run evs start = Some (st, pend)" and "(k, s) \<in> set (sessions st)"
  shows "(condition s = CondAI \<longrightarrow> \<not> awaitingOperator s) \<and>
         (condition s = CondHuman \<longrightarrow>
            awaitingOperator s = (messages s \<noteq> [] \<and> msg_role (last (messages s)) = User)) \<and>
         awaitingOperator s = isAwaitingOperator s"
proof -
  have "flag_ok s"
    using flag_ok_run[OF assms(1)] assms(2) by (auto simp: every_session_def)
  then show ?thesis
    by (auto simp: flag_ok_def isAwaitingOperator_iff)
qed

theorem awaitingOperator_rule_witness:
  "run [Create_session (utf16 ''HUMAN'') True [1] 5, Chat (JStr [1]) (JStr [7]) 6] start
     = Some (\<lparr>sessions = [([1], \<lparr>sess_id = [1], condition = CondHuman, createdAt = 5,
                 messages = [\<lparr>msg_i = 1, msg_role = User, msg_text = [7], msg_t = 6\<rparr>],
                 awaitingOperator = True\<rparr>)], globalIndex = 1\<rparr>, []) \<and>
   isAwaitingOperator \<lparr>sess_id = [1], condition = CondHuman, createdAt = 5,
                 messages = [\<lparr>msg_i = 1, msg_role = User, msg_text = [7], msg_t = 6\<rparr>],
                 awaitingOperator = True\<rparr>"
proof -
  have r: "run [Create_session (utf16 ''HUMAN'') True [1] 5, Chat (JStr [1]) (JStr [7]) 6] start
     = Some (\<lparr>sessions = [([1], \<lparr>sess_id = [1], condition = CondHuman, createdAt = 5,
                 messages = [\<lparr>msg_i = 1, msg_role = User, msg_text = [7], msg_t = 6\<rparr>],
                 awaitingOperator = True\<rparr>)], globalIndex = 1\<rparr>, [])"
    by (simp add: start_def empty_store_def post_session_def createSession_def chat_intake_def
        pushMessage_def set_awaitingOperator_def slice0_def utf16_def Let_def)
  show ?thesis
    using r awaitingOperator_rule[OF r, of "[1]"
        "\<lparr>sess_id = [1], condition = CondHuman, createdAt = 5,
          messages = [\<lparr>msg_i = 1, msg_role = User, msg_text = [7], msg_t = 6\<rparr>],
          awaitingOperator = True\<rparr>"]
    by simp
qed

subsection \<open>The history handed to the responder\<close>

text \<open>
  C2. A user message submitted to a session whose condition is AI suspends the handler
  on a call of the responder. The history of that call is the session's log, read after
  the new user message was pushed, without the messages of role \<open>ai\<close>: it holds
  messages of role \<open>user\<close> and \<open>human\<close> only, and every such message of the log. The
  prompt of the call is the submitted text as it came.
\<close>

theorem history_excludes_ai:
  assumes "map_of (sessions st) k = Some s" and "condition s = CondAI"
    and "k \<noteq> []" and "truthy tx" and "String_js tx = Some str"
  shows "\<exists>history st1.
           chat_intake (JStr k) tx now st = (Await k tx history, st1) \<and>
           history = filter (\<lambda>m. msg_role m \<noteq> Ai) (messages_of st1 k) \<and>
           (\<forall>m \<in> set history. msg_role m = User \<or> msg_role m = Human) \<and>
           (\<forall>m \<in> set (messages_of st1 k). msg_role m \<noteq> Ai \<longrightarrow> m \<in> set history) \<and>
           post_chat ask (JStr k) tx now now' st = chat_resume k (ask tx history) now' st1"
proof (cases "JStr k" tx now st rule: chat_intake_cases)
  case (ai k' s' str')
  then have eq: "k' = k" "s' = s" using assms by auto
  let ?st1 = "snd (pushMessage k User (slice0 2000 str') now st)"
  have log: "messages_of ?st1 k = messages s @ [fst (pushMessage k User (slice0 2000 str') now st)]"
    using assms(1) by (simp add: messages_of_def pushMessage_sessions AList.map_of_map_entry)
  have roles: "\<And>m. msg_role m \<noteq> Ai \<Longrightarrow> msg_role m = User \<or> msg_role m = Human"
    by (metis role.exhaust)
  show ?thesis
    using ai(6) roles unfolding eq log[symmetric]
    by (auto simp: post_chat_def)
qed (use assms in auto)

theorem history_excludes_ai_witness:
  "chat_intake (JStr [1]) (JStr [7]) 9
     \<lparr>sessions = [([1], \<lparr>sess_id = [1], condition = CondAI, createdAt = 5,
         messages = [\<lparr>msg_i = 1, msg_role = User, msg_text = [7], msg_t = 6\<rparr>,
                     \<lparr>msg_i = 2, msg_role = Ai, msg_text = [8], msg_t = 7\<rparr>],
         awaitingOperator = False\<rparr>)], globalIndex = 2\<rparr>
   = (Await [1] (JStr [7])
        [\<lparr>msg_i = 1, msg_role = User, msg_text = [7], msg_t = 6\<rparr>,
         \<lparr>msg_i = 3, msg_role = User, msg_text = [7], msg_t = 9\<rparr>],
      \<lparr>sessions = [([1], \<lparr>sess_id = [1], condition = CondAI, createdAt = 5,
         messages = [\<lparr>msg_i = 1, msg_role = User, msg_text = [7], msg_t = 6\<rparr>,
                     \<lparr>msg_i = 2, msg_role = Ai, msg_text = [8], msg_t = 7\<rparr>,
                     \<lparr>msg_i = 3, msg_role = User, msg_text = [7], msg_t = 9\<rparr>],
         awaitingOperator = False\<rparr>)], globalIndex = 3\<rparr>)"
  using history_excludes_ai[of
      "\<lparr>sessions = [([1], \<lparr>sess_id = [1], condition = CondAI, createdAt = 5,
         messages = [\<lparr>msg_i = 1, msg_role = User, msg_text = [7], msg_t = 6\<rparr>,
                     \<lparr>msg_i = 2, msg_role = Ai, msg_text = [8], msg_t = 7\<rparr>],
         awaitingOperator = False\<rparr>)], globalIndex = 2\<rparr>"
      "[1]" _ "JStr [7]" "[7]" 9 "\<lambda>p h. None" 10]
  by (simp add: messages_of_def chat_intake_def pushMessage_def slice0_def Let_def)

subsection \<open>A chat request without text\<close>

text \<open>
  C7. A chat request whose text is missing or empty (any falsy value) is answered with
  \<open>MissingFields\<close>, whatever the session id, and the store afterwards is the store
  before: no message is appended to any session and the counter keeps its value. No
  handler is left suspended either.
\<close>

theorem missing_text_leaves_store:
  assumes "\<not> truthy tx"
  shows "post_chat ask sid tx now now' st = (Failed MissingFields, st) \<and>
         chat_intake sid tx now st = (Respond (Failed MissingFields), st) \<and>
         step (Chat sid tx now) (st, pend) = Some (st, pend)"
  using assms by (simp add: post_chat_def chat_intake_def)

theorem missing_text_leaves_store_witness:
  "\<not> truthy JUndefined \<and> \<not> truthy (JStr []) \<and>
   post_chat (\<lambda>p h. Some []) (JStr [1]) JUndefined 3 4 empty_store
     = (Failed MissingFields, empty_store) \<and>
   post_chat (\<lambda>p h. None) (JStr [1]) (JStr []) 3 4 empty_store
     = (Failed MissingFields, empty_store)"
  using missing_text_leaves_store[of JUndefined "\<lambda>p h. Some []" "JStr [1]" 3 4 empty_store "[]"]
    missing_text_leaves_store[of "JStr []" "\<lambda>p h. None" "JStr [1]" 3 4 empty_store "[]"]
  by (simp add: JUndefined_def)

subsection \<open>Polling\<close>

text \<open>
  C8. A poll does not change the store, so a second poll with the same session id and
  cursor, with nothing appended in between, gives the same response: the same items and
  the same value of \<open>awaitingOperator\<close>.
\<close>

theorem poll_idempotent:
  "snd (get_messages sid a st) = st \<and>
   get_messages sid a (snd (get_messages sid a st)) = get_messages sid a st"
  by (simp add: get_messages_store)

theorem poll_idempotent_witness:
  "get_messages (JStr [1]) (Fin 0)
     \<lparr>sessions = [([1], \<lparr>sess_id = [1], condition = CondHuman, createdAt = 5,
         messages = [\<lparr>msg_i = 1, msg_role = User, msg_text = [7], msg_t = 6\<rparr>],
         awaitingOperator = True\<rparr>)], globalIndex = 1\<rparr>
   = (Messages [\<lparr>msg_i = 1, msg_role = User, msg_text = [7], msg_t = 6\<rparr>] True,
      \<lparr>sessions = [([1], \<lparr>sess_id = [1], condition = CondHuman, createdAt = 5,
         messages = [\<lparr>msg_i = 1, msg_role = User, msg_text = [7], msg_t = 6\<rparr>],
         awaitingOperator = True\<rparr>)], globalIndex = 1\<rparr>)"
  using poll_idempotent[of "JStr [1]" "Fin 0"
     "\<lparr>sessions = [([1], \<lparr>sess_id = [1], condition = CondHuman, createdAt = 5,
         messages = [\<lparr>msg_i = 1, msg_role = User, msg_text = [7], msg_t = 6\<rparr>],
         awaitingOperator = True\<rparr>)], globalIndex = 1\<rparr>"]
  by (simp add: get_messages_def isAwaitingOperator_def)

subsection \<open>The operator's reply\<close>

text \<open>
  C5. \<^verbatim>\<open>POST /api/operator/reply\<close> checks in this order. A session id that finds no
  session is answered \<open>NotFound\<close>. A session whose condition is not Human is answered
  \<open>InvalidState\<close>. A Human session with an empty (falsy) text is answered
  \<open>InvalidInput\<close>. In these three cases the store is left as it was. Otherwise the
  answer is the bare acknowledgment \<^verbatim>\<open>{ok: true}\<close>; the session's log gains exactly
  one message, of role \<open>human\<close>, with the next sequence number and the first 2000 code
  units of the text; its \<open>awaitingOperator\<close> is false; and every other session is as it
  was.
\<close>

theorem operator_reply_outcomes:
  "(sessions_get st sid = None \<longrightarrow>
      post_operator_reply sid tx now st = (Failed NotFound, st)) \<and>
   (\<forall>k s. sessions_get st sid = Some (k, s) \<and> condition s \<noteq> CondHuman \<longrightarrow>
      post_operator_reply sid tx now st = (Failed InvalidState, st)) \<and>
   (\<forall>k s. sessions_get st sid = Some (k, s) \<and> condition s = CondHuman \<and> \<not> truthy tx \<longrightarrow>
      post_operator_reply sid tx now st = (Failed InvalidInput, st)) \<and>
   (\<forall>k s str. sessions_get st sid = Some (k, s) \<and> condition s = CondHuman \<and> truthy tx \<and>
        String_js tx = Some str \<longrightarrow>
      (\<exists>st'. post_operator_reply sid tx now st = (Ok_true, st') \<and>
         map_of (sessions st') k =
           Some (s\<lparr>messages := messages s @
                     [\<lparr>msg_i = globalIndex st + 1, msg_role = Human,
                       msg_text = slice0 2000 str, msg_t = now\<rparr>],
                   awaitingOperator := False\<rparr>) \<and>
         (\<forall>k'. k' \<noteq> k \<longrightarrow> map_of (sessions st') k' = map_of (sessions st) k') \<and>
         globalIndex st' = globalIndex st + 1))"
proof (cases sid tx now st rule: post_operator_reply_cases)
  case (ok k s str)
  then show ?thesis
    by (auto simp: push_set_lookup push_set_globalIndex pushMessage_fst)
qed (auto simp: not_CondHuman)

theorem operator_reply_outcomes_witness:
  "(let st = \<lparr>sessions =
        [([1], \<lparr>sess_id = [1], condition = CondHuman, createdAt = 5,
                messages = [\<lparr>msg_i = 1, msg_role = User, msg_text = [7], msg_t = 6\<rparr>],
                awaitingOperator = True\<rparr>),
         ([2], \<lparr>sess_id = [2], condition = CondAI, createdAt = 5, messages = [],
                awaitingOperator = False\<rparr>)],
        globalIndex = 1\<rparr>
    in post_operator_reply (JStr [3]) (JStr [9]) 8 st = (Failed NotFound, st) \<and>
       post_operator_reply (JStr [2]) (JStr [9]) 8 st = (Failed InvalidState, st) \<and>
       post_operator_reply (JStr [1]) (JStr []) 8 st = (Failed InvalidInput, st) \<and>
       post_operator_reply (JStr [1]) (JStr [9]) 8 st =
         (Ok_true,
          \<lparr>sessions =
             [([1], \<lparr>sess_id = [1], condition = CondHuman, createdAt = 5,
                     messages = [\<lparr>msg_i = 1, msg_role = User, msg_text = [7], msg_t = 6\<rparr>,
                                 \<lparr>msg_i = 2, msg_role = Human, msg_text = [9], msg_t = 8\<rparr>],
                     awaitingOperator = False\<rparr>),
              ([2], \<lparr>sess_id = [2], condition = CondAI, createdAt = 5, messages = [],
                     awaitingOperator = False\<rparr>)],
            globalIndex = 2\<rparr>))"
proof -
  let ?h = "\<lparr>sess_id = [1], condition = CondHuman, createdAt = 5,
             messages = [\<lparr>msg_i = 1, msg_role = User, msg_text = [7], msg_t = 6\<rparr>],
             awaitingOperator = True\<rparr>"
  let ?a = "\<lparr>sess_id = [2], condition = CondAI, createdAt = 5, messages = [],
             awaitingOperator = False\<rparr>"
  let ?st = "\<lparr>sessions = [([1], ?h), ([2], ?a)], globalIndex = 1\<rparr>"
  have g3: "sessions_get ?st (JStr [3]) = None"
    and g2: "sessions_get ?st (JStr [2]) = Some ([2], ?a) \<and> condition ?a \<noteq> CondHuman"
    and g1: "sessions_get ?st (JStr [1]) = Some ([1], ?h) \<and> condition ?h = CondHuman \<and>
             \<not> truthy (JStr [])"
    and g0: "sessions_get ?st (JStr [1]) = Some ([1], ?h) \<and> condition ?h = CondHuman \<and>
             truthy (JStr [9]) \<and> String_js (JStr [9]) = Some [9]"
    by simp_all
  have "post_operator_reply (JStr [3]) (JStr [9]) 8 ?st = (Failed NotFound, ?st)"
    using operator_reply_outcomes[of ?st "JStr [3]" "JStr [9]" 8] g3 by blast
  moreover have "post_operator_reply (JStr [2]) (JStr [9]) 8 ?st = (Failed InvalidState, ?st)"
    using operator_reply_outcomes[of ?st "JStr [2]" "JStr [9]" 8] g2 by blast
  moreover have "post_operator_reply (JStr [1]) (JStr []) 8 ?st = (Failed InvalidInput, ?st)"
    using operator_reply_outcomes[of ?st "JStr [1]" "JStr []" 8] g1 by blast
  moreover have "fst (post_operator_reply (JStr [1]) (JStr [9]) 8 ?st) = Ok_true"
    using operator_reply_outcomes[of ?st "JStr [1]" "JStr [9]" 8] g0 by fastforce
  moreover have "snd (post_operator_reply (JStr [1]) (JStr [9]) 8 ?st) =
      \<lparr>sessions = [([1], ?h\<lparr>messages := messages ?h @
                        [\<lparr>msg_i = 2, msg_role = Human, msg_text = [9], msg_t = 8\<rparr>],
                      awaitingOperator := False\<rparr>), ([2], ?a)], globalIndex = 2\<rparr>"
    by (simp add: post_operator_reply_def pushMessage_def set_awaitingOperator_def slice0_def
        Let_def)
  ultimately show ?thesis
    by (simp add: Let_def prod_eq_iff)
qed

text \<open>
  C10. A Human session whose \<open>awaitingOperator\<close> is false, such as one without any
  message yet or one whose last message is an operator reply, still accepts an operator
  reply with a non-empty text: the answer is the acknowledgment, the \<open>human\<close> message
  is appended, and \<open>awaitingOperator\<close> stays false.
\<close>

theorem reply_when_idle:
  assumes "map_of (sessions st) k = Some s" and "condition s = CondHuman"
    and "\<not> awaitingOperator s" and "str \<noteq> []"
  shows "\<exists>st' s'. post_operator_reply (JStr k) (JStr str) now st = (Ok_true, st') \<and>
           map_of (sessions st') k = Some s' \<and>
           messages s' = messages s @
              [\<lparr>msg_i = globalIndex st + 1, msg_role = Human,
                msg_text = slice0 2000 str, msg_t = now\<rparr>] \<and>
           \<not> awaitingOperator s'"
proof (cases "JStr k" "JStr str" now st rule: post_operator_reply_cases)
  case (ok k' s' str')
  then show ?thesis using assms
    by (auto simp: push_set_lookup pushMessage_fst)
qed (use assms in auto)

theorem reply_when_idle_witness:
  "post_operator_reply (JStr [1]) (JStr [9]) 8
     \<lparr>sessions = [([1], \<lparr>sess_id = [1], condition = CondHuman, createdAt = 5, messages = [],
                         awaitingOperator = False\<rparr>)], globalIndex = 0\<rparr>
   = (Ok_true,
      \<lparr>sessions = [([1], \<lparr>sess_id = [1], condition = CondHuman, createdAt = 5,
          messages = [\<lparr>msg_i = 1, msg_role = Human, msg_text = [9], msg_t = 8\<rparr>],
          awaitingOperator = False\<rparr>)], globalIndex = 1\<rparr>)"
  using reply_when_idle[of
      "\<lparr>sessions = [([1], \<lparr>sess_id = [1], condition = CondHuman, createdAt = 5, messages = [],
                         awaitingOperator = False\<rparr>)], globalIndex = 0\<rparr>"
      "[1]"
      "\<lparr>sess_id = [1], condition = CondHuman, createdAt = 5, messages = [],
        awaitingOperator = False\<rparr>"
      "[9]" 8]
  by (simp add: post_operator_reply_def pushMessage_def set_awaitingOperator_def slice0_def Let_def)

subsection \<open>A failing responder\<close>

text \<open>
  C6. When a chat request has suspended on the responder, which happens for sessions of
  condition AI only, and the responder throws, the request is answered \<open>Internal\<close>
  and the store is the one the first part of the handler left: the user message is in
  the session's log, no \<open>ai\<close> message follows it, and the other sessions are as they
  were. The handler is finished by this answer: no call of the responder is pending for
  it afterwards.
\<close>

theorem responder_failure:
  assumes "chat_intake sid tx now st = (Await k prompt history, st1)"
    and "ask prompt history = None"
  shows "post_chat ask sid tx now now' st = (Failed Internal, st1) \<and>
         step (Responder_returns (length pend) None now') (st1, pend @ [k]) = Some (st1, pend) \<and>
         (\<exists>s str. map_of (sessions st) k = Some s \<and> condition s = CondAI \<and>
            String_js tx = Some str \<and>
            map_of (sessions st1) k =
              Some (s\<lparr>messages := messages s @
                        [\<lparr>msg_i = globalIndex st + 1, msg_role = User,
                          msg_text = slice0 2000 str, msg_t = now\<rparr>]\<rparr>)) \<and>
         (\<forall>k'. k' \<noteq> k \<longrightarrow> map_of (sessions st1) k' = map_of (sessions st) k')"
proof (cases sid tx now st rule: chat_intake_cases)
  case (ai k' s str)
  then show ?thesis using assms
    by (auto simp: post_chat_def chat_resume_None push_lookup pushMessage_fst)
qed (use assms in auto)

theorem responder_failure_witness:
  "(let st = \<lparr>sessions = [([1], \<lparr>sess_id = [1], condition = CondAI, createdAt = 5,
                                  messages = [], awaitingOperator = False\<rparr>)], globalIndex = 0\<rparr>;
        st1 = \<lparr>sessions = [([1], \<lparr>sess_id = [1], condition = CondAI, createdAt = 5,
                   messages = [\<lparr>msg_i = 1, msg_role = User, msg_text = [7], msg_t = 6\<rparr>],
                   awaitingOperator = False\<rparr>)], globalIndex = 1\<rparr>
    in chat_intake (JStr [1]) (JStr [7]) 6 st
         = (Await [1] (JStr [7]) [\<lparr>msg_i = 1, msg_role = User, msg_text = [7], msg_t = 6\<rparr>], st1) \<and>
       post_chat (\<lambda>p h. None) (JStr [1]) (JStr [7]) 6 7 st = (Failed Internal, st1))"
proof -
  let ?st = "\<lparr>sessions = [([1], \<lparr>sess_id = [1], condition = CondAI, createdAt = 5,
                                  messages = [], awaitingOperator = False\<rparr>)], globalIndex = 0\<rparr>"
  let ?st1 = "\<lparr>sessions = [([1], \<lparr>sess_id = [1], condition = CondAI, createdAt = 5,
                   messages = [\<lparr>msg_i = 1, msg_role = User, msg_text = [7], msg_t = 6\<rparr>],
                   awaitingOperator = False\<rparr>)], globalIndex = 1\<rparr>"
  have i: "chat_intake (JStr [1]) (JStr [7]) 6 ?st
         = (Await [1] (JStr [7]) [\<lparr>msg_i = 1, msg_role = User, msg_text = [7], msg_t = 6\<rparr>], ?st1)"
    by (simp add: chat_intake_def pushMessage_def messages_of_def slice0_def Let_def)
  have "post_chat (\<lambda>p h. None) (JStr [1]) (JStr [7]) 6 7 ?st = (Failed Internal, ?st1)"
    using responder_failure[OF i, of "\<lambda>p h. None" 7 "[]"] by simp
  with i show ?thesis by (simp add: Let_def)
qed

subsection \<open>Sequence numbers and the poll cursor\<close>

text \<open>
  C3. In every store a run reaches, \<^verbatim>\<open>pushMessage\<close> gives the new message the number
  \<open>globalIndex + 1\<close> and leaves the counter at that number. The one counter serves all
  sessions and never decreases, so every message stored in any session is numbered below
  every message pushed now or after any further events. A poll of a session with cursor
  \<open>a\<close> answers with the messages of the log whose number is greater than \<open>a\<close>, in
  the order of the log, which is the order of their numbers; for a finite cursor no
  returned message has a number at most the cursor, and no message above it is left out.
\<close>

theorem sequence_numbers:
  assumes "run evs start = Some (st, pend)"
  shows "msg_i (fst (pushMessage k r t now st)) = globalIndex st + 1 \<and>
         globalIndex (snd (pushMessage k r t now st)) = msg_i (fst (pushMessage k r t now st)) \<and>
         (\<forall>(k', s') \<in> set (sessions st). \<forall>m \<in> set (messages s').
            \<forall>evs' st' pend'. run evs' (st, pend) = Some (st', pend') \<longrightarrow>
              msg_i m < msg_i (fst (pushMessage k r t now st'))) \<and>
         (\<forall>s. map_of (sessions st) k = Some s \<longrightarrow>
            (\<exists>items. fst (get_messages (JStr k) a st) = Messages items (isAwaitingOperator s) \<and>
               items = filter (\<lambda>m. js_gt (msg_i m) a) (messages s) \<and>
               sorted_wrt (<) (map msg_i items) \<and>
               (\<forall>c. a = Fin c \<longrightarrow>
                  (\<forall>m \<in> set items. \<not> of_nat (msg_i m) \<le> c) \<and>
                  (\<forall>m \<in> set (messages s). c < of_nat (msg_i m) \<longrightarrow> m \<in> set items))))"
proof -
  have stored: "msg_i m \<le> globalIndex st"
    if "(k', s') \<in> set (sessions st)" "m \<in> set (messages s')" for k' s' m
    using numbered_run[OF assms] that by (auto simp: every_session_def numbered_def)
  have later: "msg_i m < msg_i (fst (pushMessage k r t now st'))"
    if "(k', s') \<in> set (sessions st)" "m \<in> set (messages s')"
      "run evs' (st, pend) = Some (st', pend')" for k' s' m evs' st' pend'
    using stored[OF that(1,2)] run_globalIndex[OF that(3)] by (simp add: pushMessage_fst)
  have poll: "sorted_wrt (<) (map msg_i (filter (\<lambda>m. js_gt (msg_i m) a) (messages s)))"
    if "map_of (sessions st) k = Some s" for s
  proof -
    have "sorted_wrt (<) (map msg_i (messages s))"
      using numbered_run[OF assms] map_of_SomeD[OF that]
      by (auto simp: every_session_def numbered_def)
    then show ?thesis
      by (simp add: sorted_wrt_map sorted_wrt_filter)
  qed
  show ?thesis
    using later poll
    by (auto simp: pushMessage_fst pushMessage_globalIndex get_messages_def)
qed

theorem sequence_numbers_witness:
  "(let st = \<lparr>sessions =
        [([1], \<lparr>sess_id = [1], condition = CondHuman, createdAt = 5,
                messages = [\<lparr>msg_i = 1, msg_role = User, msg_text = [7], msg_t = 6\<rparr>],
                awaitingOperator = True\<rparr>),
         ([2], \<lparr>sess_id = [2], condition = CondAI, createdAt = 5,
                messages = [\<lparr>msg_i = 2, msg_role = User, msg_text = [8], msg_t = 7\<rparr>,
                            \<lparr>msg_i = 3, msg_role = Ai, msg_text = [9], msg_t = 8\<rparr>],
                awaitingOperator = False\<rparr>)],
        globalIndex = 3\<rparr>
    in run [Create_session (utf16 ''HUMAN'') True [1] 5, Create_session (utf16 ''AI'') True [2] 5,
            Chat (JStr [1]) (JStr [7]) 6, Chat (JStr [2]) (JStr [8]) 7,
            Responder_returns 0 (Some [9]) 8] start = Some (st, []) \<and>
       msg_i (fst (pushMessage [2] Human [5] 9 st)) = 4 \<and>
       fst (get_messages (JStr [2]) (Fin 2) st) =
         Messages [\<lparr>msg_i = 3, msg_role = Ai, msg_text = [9], msg_t = 8\<rparr>] False)"
proof -
  let ?st = "\<lparr>sessions =
        [([1], \<lparr>sess_id = [1], condition = CondHuman, createdAt = 5,
                messages = [\<lparr>msg_i = 1, msg_role = User, msg_text = [7], msg_t = 6\<rparr>],
                awaitingOperator = True\<rparr>),
         ([2], \<lparr>sess_id = [2], condition = CondAI, createdAt = 5,
                messages = [\<lparr>msg_i = 2, msg_role = User, msg_text = [8], msg_t = 7\<rparr>,
                            \<lparr>msg_i = 3, msg_role = Ai, msg_text = [9], msg_t = 8\<rparr>],
                awaitingOperator = False\<rparr>)],
        globalIndex = 3\<rparr>"
  have r: "run [Create_session (utf16 ''HUMAN'') True [1] 5, Create_session (utf16 ''AI'') True [2] 5,
            Chat (JStr [1]) (JStr [7]) 6, Chat (JStr [2]) (JStr [8]) 7,
            Responder_returns 0 (Some [9]) 8] start = Some (?st, [])"
    by (simp add: start_def empty_store_def post_session_def createSession_def chat_intake_def
        chat_resume_def pushMessage_def set_awaitingOperator_def messages_of_def slice0_def
        utf16_def Let_def)
  show ?thesis
    using r sequence_numbers[OF r, of "[2]" Human "[5]" 9 "Fin 2"]
    by (simp add: Let_def get_messages_def pushMessage_def isAwaitingOperator_def)
qed

subsection \<open>The length of stored texts\<close>

text \<open>
  C4, as amended. In every store a run reaches, every stored message of role \<open>user\<close>
  or \<open>human\<close> has a text of at most 2000 code units: the handlers cut the request's
  text to that length before they push it. (The claim as stated also covers the
  messages of role \<open>ai\<close>; for those it fails, see below.)
\<close>

theorem intake_text_bounded:
  assumes "run evs start = Some (st, pend)" and "(k, s) \<in> set (sessions st)"
    and "m \<in> set (messages s)" and "msg_role m = User \<or> msg_role m = Human"
  shows "length (msg_text m) \<le> 2000"
  using intake_bounded_run[OF assms(1)] assms(2,3,4)
  by (auto simp: every_session_def intake_bounded_def)

theorem intake_text_bounded_witness:
  "run [Create_session (utf16 ''HUMAN'') True [1] 5,
        Chat (JStr [1]) (JStr (replicate 2001 97)) 6] start
     = Some (\<lparr>sessions = [([1], \<lparr>sess_id = [1], condition = CondHuman, createdAt = 5,
                 messages = [\<lparr>msg_i = 1, msg_role = User, msg_text = replicate 2000 97,
                              msg_t = 6\<rparr>],
                 awaitingOperator = True\<rparr>)], globalIndex = 1\<rparr>, []) \<and>
   length (msg_text \<lparr>msg_i = 1, msg_role = User, msg_text = replicate 2000 97, msg_t = 6\<rparr>)
     \<le> 2000"
proof -
  have r: "run [Create_session (utf16 ''HUMAN'') True [1] 5,
        Chat (JStr [1]) (JStr (replicate 2001 97)) 6] start
     = Some (\<lparr>sessions = [([1], \<lparr>sess_id = [1], condition = CondHuman, createdAt = 5,
                 messages = [\<lparr>msg_i = 1, msg_role = User, msg_text = replicate 2000 97,
                              msg_t = 6\<rparr>],
                 awaitingOperator = True\<rparr>)], globalIndex = 1\<rparr>, [])"
    by (simp add: start_def empty_store_def post_session_def createSession_def chat_intake_def
        pushMessage_def set_awaitingOperator_def slice0_def utf16_def Let_def)
  show ?thesis
    using r intake_text_bounded[OF r, of "[1]"
        "\<lparr>sess_id = [1], condition = CondHuman, createdAt = 5,
          messages = [\<lparr>msg_i = 1, msg_role = User, msg_text = replicate 2000 97, msg_t = 6\<rparr>],
          awaitingOperator = True\<rparr>"
        "\<lparr>msg_i = 1, msg_role = User, msg_text = replicate 2000 97, msg_t = 6\<rparr>"]
    by simp
qed

text \<open>
  C4 as stated fails for a message of role \<open>ai\<close>: the reply of the responder is pushed
  as it is. Without an API key the stub wraps the whole prompt, so a user text of 2001
  code units sent to a new AI session is stored cut to 2000, and answered by a stored
  reply of 2072 code units.
\<close>

theorem ai_text_unbounded:
  "msg_role (last (messages_of (snd (post_chat (askGemini None offline) (JStr [1])
        (JStr (replicate 2001 97)) 6 7
        (snd (post_session (utf16 ''AI'') False [1] 5 empty_store)))) [1])) = Ai \<and>
   length (msg_text (last (messages_of (snd (post_chat (askGemini None offline) (JStr [1])
        (JStr (replicate 2001 97)) 6 7
        (snd (post_session (utf16 ''AI'') False [1] 5 empty_store)))) [1]))) = 2072"
  by (simp add: post_chat_def chat_intake_def chat_resume_def pushMessage_def messages_of_def
      post_session_def createSession_def empty_store_def askGemini_def stub_prefix_def
      stub_suffix_def utf16_def slice0_def Let_def)

subsection \<open>The operator inbox\<close>

text \<open>
  C9. In every store a run reaches, the inbox listing has one entry for each session
  whose condition is Human and whose \<open>awaitingOperator\<close> is true, and no other entry.
  The entry of a session carries its id and the text and time of its most recent
  message of role \<open>user\<close> (the empty text and the creation time if there is none). The
  entries are in descending order of that time. The listing returns the store unchanged.
\<close>

theorem inbox_listing:
  assumes "run evs start = Some (st, pend)"
  shows "\<exists>items. get_inbox st = (Inbox items, st) \<and>
           mset items =
             mset (map spec_inbox_entry
                    (filter (\<lambda>s. condition s = CondHuman \<and> awaitingOperator s)
                       (map snd (sessions st)))) \<and>
           sorted_wrt (\<lambda>a b. lastAt b \<le> lastAt a) items"
proof -
  have flag: "\<forall>s \<in> set (map snd (sessions st)). awaitingOperator s = isAwaitingOperator s"
    using flag_ok_run[OF assms] by (auto simp: every_session_def flag_ok_def)
  have "filter isAwaitingOperator (map snd (sessions st)) =
        filter (\<lambda>s. condition s = CondHuman \<and> awaitingOperator s) (map snd (sessions st))"
    by (rule filter_cong[OF refl]) (use flag in \<open>auto simp: isAwaitingOperator_iff\<close>)
  then have "mset (sort_desc (inbox_loop (map snd (sessions st)) [])) =
             mset (map spec_inbox_entry
                    (filter (\<lambda>s. condition s = CondHuman \<and> awaitingOperator s)
                       (map snd (sessions st))))"
    by (simp add: sort_desc_def inbox_loop_eq inbox_entry_spec[abs_def])
  then show ?thesis
    using sorted_sort_desc by (simp add: get_inbox_def)
qed

theorem inbox_listing_witness:
  "(let st = \<lparr>sessions =
        [([1], \<lparr>sess_id = [1], condition = CondHuman, createdAt = 5,
                messages = [\<lparr>msg_i = 1, msg_role = User, msg_text = [7], msg_t = 6\<rparr>],
                awaitingOperator = True\<rparr>),
         ([2], \<lparr>sess_id = [2], condition = CondHuman, createdAt = 5,
                messages = [\<lparr>msg_i = 2, msg_role = User, msg_text = [8], msg_t = 7\<rparr>],
                awaitingOperator = True\<rparr>),
         ([3], \<lparr>sess_id = [3], condition = CondHuman, createdAt = 5, messages = [],
                awaitingOperator = False\<rparr>)],
        globalIndex = 2\<rparr>
    in run [Create_session (utf16 ''HUMAN'') True [1] 5, Create_session (utf16 ''human'') False [2] 5,
            Create_session (utf16 ''HUMAN'') True [3] 5,
            Chat (JStr [1]) (JStr [7]) 6, Chat (JStr [2]) (JStr [8]) 7] start = Some (st, []) \<and>
       get_inbox st =
         (Inbox [\<lparr>sessionId = [2], lastUserText = [8], lastAt = 7\<rparr>,
                 \<lparr>sessionId = [1], lastUserText = [7], lastAt = 6\<rparr>], st))"
proof -
  let ?st = "\<lparr>sessions =
        [([1], \<lparr>sess_id = [1], condition = CondHuman, createdAt = 5,
                messages = [\<lparr>msg_i = 1, msg_role = User, msg_text = [7], msg_t = 6\<rparr>],
                awaitingOperator = True\<rparr>),
         ([2], \<lparr>sess_id = [2], condition = CondHuman, createdAt = 5,
                messages = [\<lparr>msg_i = 2, msg_role = User, msg_text = [8], msg_t = 7\<rparr>],
                awaitingOperator = True\<rparr>),
         ([3], \<lparr>sess_id = [3], condition = CondHuman, createdAt = 5, messages = [],
                awaitingOperator = False\<rparr>)],
        globalIndex = 2\<rparr>"
  have r: "run [Create_session (utf16 ''HUMAN'') True [1] 5, Create_session (utf16 ''human'') False [2] 5,
            Create_session (utf16 ''HUMAN'') True [3] 5,
            Chat (JStr [1]) (JStr [7]) 6, Chat (JStr [2]) (JStr [8]) 7] start = Some (?st, [])"
    by (simp add: start_def empty_store_def post_session_def createSession_def chat_intake_def
        pushMessage_def set_awaitingOperator_def slice0_def utf16_def Let_def)
  show ?thesis
    using r inbox_listing[OF r]
    by (simp add: Let_def get_inbox_def sort_desc_def inbox_entry_def isAwaitingOperator_def)
qed

end
